theory Spec2Isabelle
  imports Complex_Main "HOL-Library.AList"
begin

section \<open>Data model\<close>

text \<open>
  The JavaScript values that \<open>getTimezone\<close> can meet. An object or a function is given by
  its bracket access, which finds its own properties and those it inherits through its
  prototype chain, and gives \<open>undefined\<close> where there is none. Numbers are the integers.
\<close>

datatype jsval = Undefined | Null | Bool bool | Number int | Str string | Obj "string \<Rightarrow> jsval"

fun truthy :: "jsval \<Rightarrow> bool" where
  "truthy Undefined = False"
| "truthy Null = False"
| "truthy (Bool b) = b"
| "truthy (Number n) = (n \<noteq> 0)"
| "truthy (Str s) = (s \<noteq> [])"
| "truthy (Obj members) = True"

text \<open>
  The object handed to \<open>getTimezone\<close> in \<open>index.js\<close> has the fields \<open>city\<close>, \<open>country\<close>,
  \<open>countryRegion\<close> and \<open>cfTimezone\<close>; the object built by every \<open>parseGeo\<close> has
  \<open>country\<close>, \<open>countryRegion\<close>, \<open>city\<close>, \<open>latitude\<close> and \<open>longitude\<close>. Both extend the
  three fields they share. Each field is a string or is missing (\<open>undefined\<close> or \<open>null\<close>).
\<close>

record place =
  country :: "string option"
  countryRegion :: "string option"
  city :: "string option"

record location = place +
  latitude :: "string option"
  longitude :: "string option"

record tzgeo = place +
  cfTimezone :: "string option"

text \<open>The value read from a field.\<close>

fun field :: "string option \<Rightarrow> jsval" where
  "field None = Undefined"
| "field (Some s) = Str s"

text \<open>
  The tables of \<open>timezone-data\<close> are imported by \<open>utils.js\<close> but are not part of the
  sources at hand, so they are parameters. The code reads them with \<open>TABLE[key]\<close>, and
  each table is given by that bracket access: the value of the table's own entry for the
  key, or of a property the table object inherits under that name (as a table written
  as an object literal inherits \<open>constructor\<close> and \<open>toString\<close> from \<open>Object.prototype\<close>),
  or \<open>undefined\<close>. What the region table holds under a key is \<open>undefined\<close> or an object,
  the map of the country's regions or an inherited function, again given by its bracket
  access.
\<close>

record tables =
  CITY_TIMEZONE :: "string \<Rightarrow> jsval"
  COUNTRY_TIMEZONE :: "string \<Rightarrow> jsval"
  COUNTRY_REGION_TIMEZONE :: "string \<Rightarrow> (string \<Rightarrow> jsval) option"

text \<open>\<open>TABLE[key]\<close>, which the code evaluates only after it has found the key truthy.\<close>

fun bracket :: "(string \<Rightarrow> jsval) \<Rightarrow> string option \<Rightarrow> jsval" where
  "bracket t None = Undefined"
| "bracket t (Some k) = t k"

section \<open>utils.js: getTimezone\<close>

text \<open>
  \<open>regionMap && regionMap[geo.countryRegion]\<close>, with \<open>regionMap\<close> what the region table
  holds under \<open>geo.country\<close>.
\<close>

definition regionEntry :: "tables \<Rightarrow> tzgeo \<Rightarrow> jsval" where
  "regionEntry T g =
     (case country g of
        None \<Rightarrow> Undefined
      | Some c \<Rightarrow>
          (case COUNTRY_REGION_TIMEZONE T c of
             None \<Rightarrow> Undefined
           | Some regionMap \<Rightarrow> bracket regionMap (countryRegion g)))"

text \<open>
  The four guarded returns in the order of the source; a guard that fails falls through
  to the next one, and the last line returns \<open>'UTC'\<close>. The result is the returned
  JavaScript value, whatever its type.
\<close>

definition getTimezone :: "tables \<Rightarrow> tzgeo \<Rightarrow> jsval" where
  "getTimezone T g =
     (if truthy (field (cfTimezone g)) then field (cfTimezone g)
      else if truthy (field (country g)) \<and> truthy (field (countryRegion g))
              \<and> truthy (regionEntry T g)
        then regionEntry T g
      else if truthy (field (city g)) \<and> truthy (bracket (CITY_TIMEZONE T) (city g))
        then bracket (CITY_TIMEZONE T) (city g)
      else if truthy (field (country g)) \<and> truthy (bracket (COUNTRY_TIMEZONE T) (country g))
        then bracket (COUNTRY_TIMEZONE T) (country g)
      else Str ''UTC'')"

section \<open>geoip-services.js: promises\<close>

text \<open>
  A promise is given by the time at which it settles, in milliseconds after the call
  started, and by how it settles: fulfilled with a value, or rejected with an error of
  which only the message is read.
\<close>

datatype 'a settlement = Fulfilled 'a | Rejected string

record 'a promise =
  settledAt :: nat
  settlement :: "'a settlement"

text \<open>
  \<open>Promise.race\<close> settles as the first of its arguments to settle; of two that settle
  at the same time the one listed first is taken. On the empty list it never settles,
  which is \<open>None\<close>.
\<close>

fun promiseRace :: "'a promise list \<Rightarrow> 'a promise option" where
  "promiseRace [] = None"
| "promiseRace (p # ps) =
     (case promiseRace ps of
        None \<Rightarrow> Some p
      | Some q \<Rightarrow> if settledAt p \<le> settledAt q then Some p else Some q)"

text \<open>
  What \<open>fetchFromService\<close> resolves to: the object \<open>{ timezone, geo, service }\<close>, whose
  timezone passed the check \<open>!timezone\<close>, or \<open>null\<close>. The function catches every error, so
  its promise is never rejected.
\<close>

record ('t, 'g) answer =
  timezone :: 't
  geo :: 'g

record fetched = "(string, location) answer" +
  service :: string

type_synonym outcome = "fetched option"

datatype error = Error string

section \<open>geoip-services.js: raceWithTimeout\<close>

definition timeoutPromise :: "nat \<Rightarrow> 'a promise" where
  "timeoutPromise totalTimeout =
     \<lparr>settledAt = totalTimeout, settlement = Rejected ''Total timeout''\<rparr>"

text \<open>
  The generator walks the promises in the order of the array. Each one is raced against
  the timeout promise: a fulfilled value is yielded, a rejection with the message
  \<open>Total timeout\<close> leaves the loop, any other rejection yields \<open>null\<close>. The result is the
  sequence of yielded values. All fetches are started before the generator runs, and the
  timer of the timeout promise starts with its first step, so each race is decided by the
  two settle times; a consumer that returns early leaves the rest of the sequence unread.
\<close>

fun raceWithTimeout :: "'a option promise list \<Rightarrow> nat \<Rightarrow> 'a option list" where
  "raceWithTimeout [] totalTimeout = []"
| "raceWithTimeout (promise # promises) totalTimeout =
     (case promiseRace [promise, timeoutPromise totalTimeout] of
        None \<Rightarrow> []
      | Some w \<Rightarrow>
          (case settlement w of
             Fulfilled result \<Rightarrow> result # raceWithTimeout promises totalTimeout
           | Rejected message \<Rightarrow>
               if message = ''Total timeout'' then []
               else None # raceWithTimeout promises totalTimeout))"

section \<open>geoip-services.js: getTimezoneByConsensus\<close>

text \<open>
  The object returned by consensus mode. \<open>confidence\<close> is the quotient of two small
  counts, kept exact here; \<open>responseTime\<close> is a reading of the wall clock and is left out.
\<close>

record consensus = "(string option, location option) answer" +
  confidence :: rat
  sources :: nat

text \<open>
  The local variables of the call. \<open>tallyMap\<close> is a JavaScript \<open>Map\<close>, which iterates in
  the order in which its keys were first set: an association list, read with \<open>map_of\<close>
  and written with \<open>AList.update\<close>, which replaces the value of a key in place and appends
  a new key at the end.
\<close>

record TallyState =
  results :: "fetched list"
  tallyMap :: "(string \<times> nat) list"
  completedCount :: nat

definition initialState :: TallyState where
  "initialState = \<lparr>results = [], tallyMap = [], completedCount = 0\<rparr>"

text \<open>\<open>Math.ceil(GEOIP_SERVICES.length / 2)\<close>\<close>

definition majority :: "nat \<Rightarrow> nat" where
  "majority n = nat \<lceil>(of_nat n :: rat) / 2\<rceil>"

datatype flow = Continue TallyState | Return TallyState consensus

text \<open>One pass through the body of the \<open>for await\<close> loop, \<open>n\<close> being the number of services.\<close>

definition loopBody :: "nat \<Rightarrow> TallyState \<Rightarrow> outcome \<Rightarrow> flow" where
  "loopBody n st y =
     (case y of
        None \<Rightarrow> Continue st
      | Some result \<Rightarrow>
          (let st1 = st\<lparr>completedCount := completedCount st + 1,
                         results := results st @ [result]\<rparr>;
               count = (case map_of (tallyMap st1) (timezone result) of
                          None \<Rightarrow> 0 | Some c \<Rightarrow> c);
               st2 = st1\<lparr>tallyMap := AList.update (timezone result) (count + 1) (tallyMap st1)\<rparr>
           in if count + 1 \<ge> majority n
              then Return st2
                     \<lparr>timezone = Some (timezone result), geo = Some (geo result),
                      confidence = of_nat (count + 1) / of_nat n,
                      sources = completedCount st2\<rparr>
              else Continue st2))"

text \<open>
  The loop over the yielded values: the state when the loop is left, and the returned
  object when it is left by \<open>return\<close>.
\<close>

fun forAwait :: "nat \<Rightarrow> TallyState \<Rightarrow> outcome list \<Rightarrow> TallyState \<times> consensus option" where
  "forAwait n st [] = (st, None)"
| "forAwait n st (y # ys) =
     (case loopBody n st y of
        Return st' r \<Rightarrow> (st', Some r)
      | Continue st' \<Rightarrow> forAwait n st' ys)"

text \<open>The variables of the best-guess loop, and the loop over \<open>tallyMap.entries()\<close>.\<close>

record best =
  bestTimezone :: "string option"
  maxCount :: nat
  bestGeo :: "location option"

fun pickBest :: "fetched list \<Rightarrow> (string \<times> nat) list \<Rightarrow> best \<Rightarrow> best" where
  "pickBest rs [] b = b"
| "pickBest rs ((tz, count) # entries) b =
     pickBest rs entries
       (if count > maxCount b
        then \<lparr>bestTimezone = Some tz, maxCount = count,
              bestGeo = map_option geo (find (\<lambda>r. timezone r = tz) rs)\<rparr>
        else b)"

definition bestGuess :: "nat \<Rightarrow> TallyState \<Rightarrow> error + consensus" where
  "bestGuess n st =
     (if tallyMap st \<noteq> []
      then (let b = pickBest (results st) (tallyMap st)
                      \<lparr>bestTimezone = None, maxCount = 0, bestGeo = None\<rparr>
            in Inr \<lparr>timezone = bestTimezone b, geo = bestGeo b,
                    confidence = of_nat (maxCount b) / of_nat n,
                    sources = completedCount st\<rparr>)
      else Inl (Error ''All GeoIP services failed or timed out''))"

text \<open>
  \<open>promises\<close> is the array built from \<open>GEOIP_SERVICES\<close>, one promise of
  \<open>fetchFromService\<close> per service in the order of registration, so its length is
  \<open>GEOIP_SERVICES.length\<close>.
\<close>

definition getTimezoneByConsensus :: "outcome promise list \<Rightarrow> nat \<Rightarrow> error + consensus" where
  "getTimezoneByConsensus promises totalTimeout =
     (case forAwait (length promises) initialState (raceWithTimeout promises totalTimeout) of
        (st, Some r) \<Rightarrow> Inr r
      | (st, None) \<Rightarrow> bestGuess (length promises) st)"

section \<open>geoip-services.js: getTimezoneFirst\<close>

text \<open>The wrapper \<open>async p => { const res = await p; if (res) return res; throw ... }\<close>\<close>

definition orFail :: "outcome promise \<Rightarrow> fetched promise" where
  "orFail p =
     \<lparr>settledAt = settledAt p,
      settlement = (case settlement p of
                      Fulfilled (Some res) \<Rightarrow> Fulfilled res
                    | Fulfilled None \<Rightarrow> Rejected ''Service failed''
                    | Rejected message \<Rightarrow> Rejected message)\<rparr>"

text \<open>\<open>None\<close>: the call never returns, as the race of no promise never settles.\<close>

definition getTimezoneFirst :: "outcome promise list \<Rightarrow> (error + fetched) option" where
  "getTimezoneFirst promises =
     (case promiseRace (map orFail promises) of
        None \<Rightarrow> None
      | Some w \<Rightarrow>
          (case settlement w of
             Fulfilled result \<Rightarrow>
               Some (Inr \<lparr>timezone = timezone result, geo = geo result,
                          service = service result\<rparr>)
           | Rejected message \<Rightarrow> Some (Inl (Error message))))"

section \<open>Notions used in the statements\<close>

text \<open>
  The values that are objects among the yielded ones (those that are not \<open>null\<close>), in
  the order in which they were yielded.
\<close>

fun observed :: "'a option list \<Rightarrow> 'a list" where
  "observed [] = []"
| "observed (None # ys) = observed ys"
| "observed (Some r # ys) = r # observed ys"

text \<open>The number of answers in \<open>rs\<close> that name the timezone \<open>tz\<close>.\<close>

definition votes :: "fetched list \<Rightarrow> string \<Rightarrow> nat" where
  "votes rs tz = length (filter (\<lambda>r. timezone r = tz) rs)"

text \<open>The elements of a list in the order of their first occurrence.\<close>

definition firstSeen :: "'a list \<Rightarrow> 'a list" where
  "firstSeen xs = rev (remdups (rev xs))"

text \<open>
  The local variables after the answers \<open>rs\<close> have been tallied: every timezone seen,
  in the order of its first answer, with the number of its answers.
\<close>

definition stateOf :: "fetched list \<Rightarrow> TallyState" where
  "stateOf rs =
     \<lparr>results = rs,
      tallyMap = map (\<lambda>tz. (tz, votes rs tz)) (firstSeen (map timezone rs)),
      completedCount = length rs\<rparr>"

text \<open>No timezone that occurs in \<open>rs\<close> has as many answers as the majority asks for.\<close>

definition noMajority :: "nat \<Rightarrow> fetched list \<Rightarrow> bool" where
  "noMajority n rs = (\<forall>r \<in> set rs. votes rs (timezone r) < majority n)"

text \<open>The variables of the best-guess loop after an entry has replaced the best one.\<close>

definition chosen :: "fetched list \<Rightarrow> string \<Rightarrow> nat \<Rightarrow> best" where
  "chosen rs tz c =
     \<lparr>bestTimezone = Some tz, maxCount = c,
      bestGeo = map_option geo (find (\<lambda>r. timezone r = tz) rs)\<rparr>"

text \<open>
  What the generator yields for a promise that wins its race, and whether a promise wins
  its race against the timeout promise.
\<close>

definition yielded :: "'a option promise \<Rightarrow> 'a option" where
  "yielded p = (case settlement p of Fulfilled v \<Rightarrow> v | Rejected message \<Rightarrow> None)"

definition inTime :: "nat \<Rightarrow> 'a promise \<Rightarrow> bool" where
  "inTime T p = (settledAt p \<le> T \<and> settlement p \<noteq> Rejected ''Total timeout'')"

text \<open>
  The order the specification speaks of: the promises that settle within the timeout,
  by the time at which they settle.
\<close>

definition completionOrder :: "'a option promise list \<Rightarrow> nat \<Rightarrow> 'a option list" where
  "completionOrder ps T = map yielded (sort_key settledAt (filter (inTime T) ps))"

text \<open>The local variables of \<open>getTimezoneByConsensus\<close> at the moment the call returns or throws.\<close>

definition tallied :: "outcome promise list \<Rightarrow> nat \<Rightarrow> TallyState" where
  "tallied ps T = fst (forAwait (length ps) initialState (raceWithTimeout ps T))"

text \<open>
  The tie-break as the specification words it: the first timezone whose running count
  reaches \<open>c\<close> while the answers are read in the order of arrival, and the highest count
  among the answers.
\<close>

fun firstToReach :: "nat \<Rightarrow> fetched list \<Rightarrow> fetched list \<Rightarrow> string option" where
  "firstToReach c seen [] = None"
| "firstToReach c seen (r # rs) =
     (if votes (seen @ [r]) (timezone r) = c then Some (timezone r)
      else firstToReach c (seen @ [r]) rs)"

definition highestCount :: "fetched list \<Rightarrow> nat" where
  "highestCount rs = foldr (\<lambda>r m. max (votes rs (timezone r)) m) rs 0"

subsection \<open>Example inputs\<close>

text \<open>
  An answer of the service \<open>svc\<close> that names a timezone and a city, and a promise that
  is fulfilled with \<open>v\<close> after \<open>t\<close> milliseconds.
\<close>

definition reply :: "string \<Rightarrow> string \<Rightarrow> string \<Rightarrow> fetched" where
  "reply svc tz c =
     \<lparr>timezone = tz,
      geo = \<lparr>country = None, countryRegion = None, city = Some c,
             latitude = None, longitude = None\<rparr>,
      service = svc\<rparr>"

definition settles :: "nat \<Rightarrow> 'a \<Rightarrow> 'a promise" where
  "settles t v = \<lparr>settledAt = t, settlement = Fulfilled v\<rparr>"

definition london :: "string \<Rightarrow> fetched" where
  "london svc = reply svc ''Europe/London'' ''London''"

definition paris :: "string \<Rightarrow> fetched" where
  "paris svc = reply svc ''Europe/Paris'' ''Paris''"

text \<open>
  Five services: three answer London within 300 ms, a fourth answers Paris, the last
  one settles after the total timeout of 8000 ms.
\<close>

definition exMajority :: "outcome promise list" where
  "exMajority =
     [settles 100 (Some (london ''a'')), settles 200 (Some (reply ''b'' ''Europe/London'' ''Leeds'')),
      settles 300 (Some (reply ''c'' ''Europe/London'' ''York'')), settles 400 (Some (paris ''d'')),
      settles 9000 (Some (paris ''e''))]"

text \<open>Five services: London, Paris, Paris, London, and one that fails.\<close>

definition exTie :: "outcome promise list" where
  "exTie =
     [settles 100 (Some (london ''a'')), settles 200 (Some (paris ''b'')),
      settles 300 (Some (reply ''c'' ''Europe/Paris'' ''Lyon'')),
      settles 400 (Some (reply ''d'' ''Europe/London'' ''Leeds'')), settles 500 None]"

text \<open>Five services, two of which fail; the other three name three different timezones.\<close>

definition exAbsent :: "outcome promise list" where
  "exAbsent =
     [settles 100 None, settles 200 (Some (london ''b'')), settles 300 (Some (paris ''c'')),
      settles 400 None, settles 500 (Some (reply ''e'' ''Europe/Berlin'' ''Berlin''))]"

text \<open>
  Five services: London, Paris, a third that settles after the total timeout, and two
  more that answer London within 400 ms.
\<close>

definition exCut :: "outcome promise list" where
  "exCut =
     [settles 100 (Some (london ''a'')), settles 200 (Some (paris ''b'')),
      settles 9000 (Some (reply ''c'' ''Asia/Tokyo'' ''Tokyo'')),
      settles 300 (Some (reply ''d'' ''Europe/London'' ''Leeds'')),
      settles 400 (Some (reply ''e'' ''Europe/London'' ''York''))]"

text \<open>
  Tables whose bracket access finds an entry for \<open>CN\<close> and, under \<open>constructor\<close>, a
  function with the name \<open>Object\<close>.
\<close>

definition exFunction :: "string \<Rightarrow> jsval" where
  "exFunction k = (if k = ''name'' then Str ''Object'' else Undefined)"

definition exTable :: "string \<Rightarrow> jsval" where
  "exTable k =
     (if k = ''CN'' then Str ''Asia/Shanghai''
      else if k = ''constructor'' then Obj exFunction
      else Undefined)"

definition exTables :: tables where
  "exTables =
     \<lparr>CITY_TIMEZONE = exTable, COUNTRY_TIMEZONE = exTable,
      COUNTRY_REGION_TIMEZONE = (\<lambda>k. if k = ''constructor'' then Some exFunction else None)\<rparr>"

section \<open>The tally loop\<close>

lemma majority_eq: "majority n = (n + 1) div 2"
  unfolding majority_def by linarith

lemma observed_append [simp]: "observed (xs @ ys) = observed xs @ observed ys"
  by (induction xs rule: observed.induct) simp_all

lemma length_observed: "length (observed ys) \<le> length ys"
  by (induction ys rule: observed.induct) simp_all

lemma observed_Nil_iff: "observed ys = [] \<longleftrightarrow> (\<forall>y \<in> set ys. y = None)"
  by (induction ys rule: observed.induct) simp_all

lemma votes_snoc: "votes (rs @ [r]) tz = votes rs tz + (if timezone r = tz then 1 else 0)"
  by (simp add: votes_def)

lemma votes_zero_iff: "votes rs tz = 0 \<longleftrightarrow> tz \<notin> timezone ` set rs"
  by (auto simp: votes_def filter_empty_conv)

lemma votes_le_length: "votes rs tz \<le> length rs"
  by (simp add: votes_def)

lemma firstSeen_snoc:
  "firstSeen (xs @ [x]) = (if x \<in> set xs then firstSeen xs else firstSeen xs @ [x])"
  by (simp add: firstSeen_def)

lemma set_firstSeen [simp]: "set (firstSeen xs) = set xs"
  by (simp add: firstSeen_def)

lemma distinct_firstSeen [simp]: "distinct (firstSeen xs)"
  by (simp add: firstSeen_def)

lemma firstSeen_Nil_iff [simp]: "firstSeen xs = [] \<longleftrightarrow> xs = []"
  by (metis set_firstSeen set_empty)

lemma map_of_tabulate:
  "map_of (map (\<lambda>k. (k, f k)) ks) k = (if k \<in> set ks then Some (f k) else None)"
  by (induction ks) auto

lemma update_tabulate_mem:
  "distinct ks \<Longrightarrow> k \<in> set ks \<Longrightarrow> g = f(k := v) \<Longrightarrow>
   AList.update k v (map (\<lambda>t. (t, f t)) ks) = map (\<lambda>t. (t, g t)) ks"
  by (induction ks) auto

lemma update_tabulate_new:
  "k \<notin> set ks \<Longrightarrow> g = f(k := v) \<Longrightarrow>
   AList.update k v (map (\<lambda>t. (t, f t)) ks) = map (\<lambda>t. (t, g t)) (ks @ [k])"
  by (induction ks) auto

text \<open>Setting the count of the answer's timezone keeps the map in the shape of \<open>stateOf\<close>.\<close>

lemma tally_update:
  "AList.update (timezone r) (votes rs (timezone r) + 1)
     (map (\<lambda>tz. (tz, votes rs tz)) (firstSeen (map timezone rs)))
   = map (\<lambda>tz. (tz, votes (rs @ [r]) tz)) (firstSeen (map timezone (rs @ [r])))"
proof -
  have f: "votes (rs @ [r]) = (votes rs)(timezone r := votes rs (timezone r) + 1)"
    by (auto simp: votes_snoc fun_eq_iff)
  show ?thesis
  proof (cases "timezone r \<in> set (map timezone rs)")
    case True
    then have "firstSeen (map timezone (rs @ [r])) = firstSeen (map timezone rs)"
      by (simp add: firstSeen_snoc)
    moreover have "timezone r \<in> set (firstSeen (map timezone rs))"
      using True by simp
    ultimately show ?thesis
      using update_tabulate_mem [OF distinct_firstSeen _ f] by simp
  next
    case False
    then have "firstSeen (map timezone (rs @ [r])) = firstSeen (map timezone rs) @ [timezone r]"
      by (simp add: firstSeen_snoc)
    moreover have "timezone r \<notin> set (firstSeen (map timezone rs))"
      using False by simp
    ultimately show ?thesis
      using update_tabulate_new [OF _ f] by simp
  qed
qed

lemma tally_count:
  "(case map_of (map (\<lambda>tz. (tz, votes rs tz)) (firstSeen (map timezone rs))) tz of
      None \<Rightarrow> 0 | Some c \<Rightarrow> c) = votes rs tz"
  using votes_zero_iff [of rs tz] by (auto simp: map_of_tabulate)

lemma results_stateOf [simp]: "results (stateOf rs) = rs"
  by (simp add: stateOf_def)

lemma completedCount_stateOf [simp]: "completedCount (stateOf rs) = length rs"
  by (simp add: stateOf_def)

lemma stateOf_Nil: "initialState = stateOf []"
  by (simp add: initialState_def stateOf_def firstSeen_def)

lemma loopBody_None: "loopBody n st None = Continue st"
  by (simp add: loopBody_def)

lemma loopBody_Some:
  "loopBody n (stateOf rs) (Some r) =
     (if votes rs (timezone r) + 1 \<ge> majority n
      then Return (stateOf (rs @ [r]))
             \<lparr>timezone = Some (timezone r), geo = Some (geo r),
              confidence = of_nat (votes rs (timezone r) + 1) / of_nat n,
              sources = length rs + 1\<rparr>
      else Continue (stateOf (rs @ [r])))"
  using tally_update [of r rs] tally_count [of rs "timezone r"]
  by (simp add: loopBody_def stateOf_def Let_def del: map_append)

lemma noMajority_Nil [simp]: "noMajority n []"
  by (simp add: noMajority_def)

lemma noMajority_snoc:
  "noMajority n rs \<Longrightarrow> votes rs (timezone r) + 1 < majority n \<Longrightarrow> noMajority n (rs @ [r])"
  by (auto simp: noMajority_def votes_snoc)

lemma noMajority_snocD:
  "noMajority n (rs @ [r]) \<Longrightarrow> noMajority n rs \<and> votes rs (timezone r) + 1 < majority n"
  by (fastforce simp: noMajority_def votes_snoc split: if_splits)

lemma noMajority_appendD: "noMajority n (rs @ zs) \<Longrightarrow> noMajority n rs"
  by (induction zs rule: rev_induct) (auto simp flip: append_assoc dest: noMajority_snocD)

text \<open>The loop runs to the end of the sequence when no timezone reaches the majority.\<close>

lemma forAwait_exhausted:
  "noMajority n (rs @ observed ys) \<Longrightarrow>
   forAwait n (stateOf rs) ys = (stateOf (rs @ observed ys), None)"
proof (induction ys arbitrary: rs)
  case Nil
  then show ?case by simp
next
  case (Cons y ys)
  show ?case
  proof (cases y)
    case None
    with Cons show ?thesis by (simp add: loopBody_None)
  next
    case (Some r)
    from Cons.prems Some have nm: "noMajority n ((rs @ [r]) @ observed ys)" by simp
    then have "votes rs (timezone r) + 1 < majority n"
      using noMajority_appendD noMajority_snocD by blast
    with Cons.IH [OF nm] Some show ?thesis by (simp add: loopBody_Some)
  qed
qed

text \<open>The loop is left by \<open>return\<close> at the first answer whose timezone reaches the majority.\<close>

lemma forAwait_majority:
  assumes "noMajority n (rs @ observed pre)"
    and "votes (rs @ observed pre) (timezone r) + 1 \<ge> majority n"
  shows "forAwait n (stateOf rs) (pre @ Some r # rest) =
     (stateOf (rs @ observed pre @ [r]),
      Some \<lparr>timezone = Some (timezone r), geo = Some (geo r),
            confidence = of_nat (votes (rs @ observed pre) (timezone r) + 1) / of_nat n,
            sources = length (rs @ observed pre) + 1\<rparr>)"
  using assms
proof (induction pre arbitrary: rs)
  case Nil
  then show ?case by (simp add: loopBody_Some)
next
  case (Cons y pre)
  show ?case
  proof (cases y)
    case None
    with Cons show ?thesis by (simp add: loopBody_None)
  next
    case (Some q)
    from Cons.prems Some have nm: "noMajority n ((rs @ [q]) @ observed pre)"
      and v: "votes ((rs @ [q]) @ observed pre) (timezone r) + 1 \<ge> majority n" by simp_all
    from nm have "votes rs (timezone q) + 1 < majority n"
      using noMajority_appendD noMajority_snocD by blast
    with Cons.IH [OF nm v] Some show ?thesis by (simp add: loopBody_Some)
  qed
qed

text \<open>Every sequence is of one of the two kinds.\<close>

lemma majority_split:
  "noMajority n (observed ys) \<or>
   (\<exists>pre r rest. ys = pre @ Some r # rest \<and> noMajority n (observed pre) \<and>
        votes (observed pre) (timezone r) + 1 \<ge> majority n)"
proof (induction ys rule: rev_induct)
  case Nil
  then show ?case by simp
next
  case (snoc y ys)
  from snoc.IH show ?case
  proof
    assume nm: "noMajority n (observed ys)"
    show ?thesis
    proof (cases y)
      case None
      with nm show ?thesis by simp
    next
      case (Some r)
      show ?thesis
      proof (cases "votes (observed ys) (timezone r) + 1 < majority n")
        case True
        with nm Some show ?thesis by (simp add: noMajority_snoc)
      next
        case False
        with nm Some have "ys @ [y] = ys @ Some r # [] \<and> noMajority n (observed ys) \<and>
           votes (observed ys) (timezone r) + 1 \<ge> majority n" by simp
        then show ?thesis by blast
      qed
    qed
  next
    assume "\<exists>pre r rest. ys = pre @ Some r # rest \<and> noMajority n (observed pre) \<and>
        votes (observed pre) (timezone r) + 1 \<ge> majority n"
    then obtain pre r rest where "ys = pre @ Some r # rest" "noMajority n (observed pre)"
        "votes (observed pre) (timezone r) + 1 \<ge> majority n" by blast
    then have "ys @ [y] = pre @ Some r # (rest @ [y]) \<and> noMajority n (observed pre) \<and>
        votes (observed pre) (timezone r) + 1 \<ge> majority n" by simp
    then show ?thesis by blast
  qed
qed

section \<open>The best-guess loop\<close>

text \<open>
  Either no entry exceeds the count held at the start, or the loop ends with an entry
  whose count is greater than every count before it and not less than any count after it.
\<close>

lemma pickBest_cases:
  "(pickBest rs es b = b \<and> (\<forall>(t, c) \<in> set es. c \<le> maxCount b)) \<or>
   (\<exists>pre t c post. es = pre @ (t, c) # post \<and> pickBest rs es b = chosen rs t c \<and>
       maxCount b < c \<and> (\<forall>(t', c') \<in> set pre. c' < c) \<and> (\<forall>(t', c') \<in> set post. c' \<le> c))"
proof (induction es arbitrary: b)
  case Nil
  then show ?case by simp
next
  case (Cons e es)
  obtain tz count where e: "e = (tz, count)" by (cases e)
  show ?case
  proof (cases "count > maxCount b")
    case True
    have step: "pickBest rs (e # es) b = pickBest rs es (chosen rs tz count)"
      using True by (simp add: e chosen_def)
    from Cons.IH [of "chosen rs tz count"] show ?thesis
    proof
      assume a: "pickBest rs es (chosen rs tz count) = chosen rs tz count \<and>
         (\<forall>(t, c) \<in> set es. c \<le> maxCount (chosen rs tz count))"
      then have "e # es = [] @ (tz, count) # es \<and> pickBest rs (e # es) b = chosen rs tz count \<and>
         maxCount b < count \<and> (\<forall>(t', c') \<in> set []. c' < count) \<and>
         (\<forall>(t', c') \<in> set es. c' \<le> count)"
        using True step by (simp add: e chosen_def)
      then show ?thesis by blast
    next
      assume "\<exists>pre t c post. es = pre @ (t, c) # post \<and>
         pickBest rs es (chosen rs tz count) = chosen rs t c \<and>
         maxCount (chosen rs tz count) < c \<and> (\<forall>(t', c') \<in> set pre. c' < c) \<and>
         (\<forall>(t', c') \<in> set post. c' \<le> c)"
      then obtain pre t c post where p: "es = pre @ (t, c) # post"
        "pickBest rs es (chosen rs tz count) = chosen rs t c"
        "maxCount (chosen rs tz count) < c" "\<forall>(t', c') \<in> set pre. c' < c"
        "\<forall>(t', c') \<in> set post. c' \<le> c" by blast
      then have "e # es = (e # pre) @ (t, c) # post \<and> pickBest rs (e # es) b = chosen rs t c \<and>
         maxCount b < c \<and> (\<forall>(t', c') \<in> set (e # pre). c' < c) \<and>
         (\<forall>(t', c') \<in> set post. c' \<le> c)"
        using True step by (simp add: e chosen_def)
      then show ?thesis by blast
    qed
  next
    case False
    have step: "pickBest rs (e # es) b = pickBest rs es b"
      using False by (simp add: e)
    from Cons.IH [of b] show ?thesis
    proof
      assume "pickBest rs es b = b \<and> (\<forall>(t, c) \<in> set es. c \<le> maxCount b)"
      then show ?thesis using False step by (simp add: e)
    next
      assume "\<exists>pre t c post. es = pre @ (t, c) # post \<and> pickBest rs es b = chosen rs t c \<and>
         maxCount b < c \<and> (\<forall>(t', c') \<in> set pre. c' < c) \<and> (\<forall>(t', c') \<in> set post. c' \<le> c)"
      then obtain pre t c post where p: "es = pre @ (t, c) # post"
        "pickBest rs es b = chosen rs t c" "maxCount b < c"
        "\<forall>(t', c') \<in> set pre. c' < c" "\<forall>(t', c') \<in> set post. c' \<le> c" by blast
      then have "e # es = (e # pre) @ (t, c) # post \<and> pickBest rs (e # es) b = chosen rs t c \<and>
         maxCount b < c \<and> (\<forall>(t', c') \<in> set (e # pre). c' < c) \<and>
         (\<forall>(t', c') \<in> set post. c' \<le> c)"
        using False step by (simp add: e)
      then show ?thesis by blast
    qed
  qed
qed

text \<open>An element that stands earlier in \<open>firstSeen xs\<close> occurs in \<open>xs\<close> before the other one does.\<close>

lemma firstSeen_before:
  "firstSeen xs = pre @ w # post \<Longrightarrow> t \<in> set post \<Longrightarrow> w \<in> set (takeWhile (\<lambda>x. x \<noteq> t) xs)"
proof (induction xs arbitrary: post rule: rev_induct)
  case Nil
  then show ?case by (simp add: firstSeen_def)
next
  case (snoc x xs)
  show ?case
  proof (cases "x \<in> set xs")
    case True
    with snoc.prems have fs: "firstSeen xs = pre @ w # post" by (simp add: firstSeen_snoc)
    then have "t \<in> set xs" using snoc.prems(2) set_firstSeen [of xs] by auto
    with snoc.IH [OF fs snoc.prems(2)] show ?thesis by (simp add: takeWhile_append1)
  next
    case False
    with snoc.prems have fs: "firstSeen xs @ [x] = pre @ w # post" by (simp add: firstSeen_snoc)
    from snoc.prems(2) obtain post' where post: "post = post' @ [last post]"
      by (metis append_butlast_last_id empty_iff list.set(1))
    with fs have fs': "firstSeen xs = pre @ w # post'" and lx: "last post = x"
      by (metis append_assoc append_Cons butlast_snoc, metis append_assoc append_Cons last_snoc)
    show ?thesis
    proof (cases "t \<in> set post'")
      case True
      then have "t \<in> set xs" using fs' set_firstSeen [of xs] by auto
      with snoc.IH [OF fs' True] show ?thesis by (simp add: takeWhile_append1)
    next
      case False
      with post lx snoc.prems(2) have tx: "t = x"
        by (metis Un_iff empty_iff insert_iff list.set(1) list.set(2) set_append)
      have "w \<in> set xs" using fs' set_firstSeen [of xs] by auto
      moreover have "takeWhile (\<lambda>y. y \<noteq> t) (xs @ [x]) = xs"
        using \<open>x \<notin> set xs\<close> tx by (subst takeWhile_append2) auto
      ultimately show ?thesis by simp
    qed
  qed
qed

lemma bestGuess_Nil:
  "bestGuess n (stateOf []) = Inl (Error ''All GeoIP services failed or timed out'')"
  by (simp add: bestGuess_def stateOf_def firstSeen_def)

lemma bestGuess_stateOf:
  assumes "rs \<noteq> []"
  shows "\<exists>w. bestGuess n (stateOf rs) =
            Inr \<lparr>timezone = Some w, geo = map_option geo (find (\<lambda>r. timezone r = w) rs),
                 confidence = of_nat (votes rs w) / of_nat n, sources = length rs\<rparr>
          \<and> w \<in> timezone ` set rs
          \<and> (\<forall>tz. votes rs tz \<le> votes rs w)
          \<and> (\<forall>tz. tz \<noteq> w \<and> votes rs tz = votes rs w \<longrightarrow>
                 w \<in> set (takeWhile (\<lambda>t. t \<noteq> tz) (map timezone rs)))"
proof -
  define ks where "ks = firstSeen (map timezone rs)"
  define es where "es = map (\<lambda>tz. (tz, votes rs tz)) ks"
  define b0 where "b0 = \<lparr>bestTimezone = None, maxCount = 0, bestGeo = None\<rparr>"
  have ks_set: "set ks = timezone ` set rs" by (simp add: ks_def)
  have es_ne: "es \<noteq> []" using assms by (simp add: es_def ks_def)
  have es_votes: "c = votes rs t \<and> t \<in> set ks" if "(t, c) \<in> set es" for t c
    using that by (auto simp: es_def)
  have pos: "0 < votes rs t" if "t \<in> set ks" for t
    using that ks_set votes_zero_iff [of rs t] by auto
  have bg: "bestGuess n (stateOf rs) =
      Inr \<lparr>timezone = bestTimezone (pickBest rs es b0), geo = bestGeo (pickBest rs es b0),
           confidence = of_nat (maxCount (pickBest rs es b0)) / of_nat n, sources = length rs\<rparr>"
    using es_ne by (simp add: bestGuess_def stateOf_def es_def ks_def b0_def Let_def)
  from pickBest_cases [of rs es b0] show ?thesis
  proof
    assume "pickBest rs es b0 = b0 \<and> (\<forall>(t, c) \<in> set es. c \<le> maxCount b0)"
    then have le: "\<forall>(t, c) \<in> set es. c \<le> 0" by (simp add: b0_def)
    obtain t c where tc: "(t, c) \<in> set es" using es_ne by (cases es) auto
    with le have "c = 0" by auto
    with es_votes [OF tc] pos [of t] have False by simp
    then show ?thesis ..
  next
    assume "\<exists>pre t c post. es = pre @ (t, c) # post \<and> pickBest rs es b0 = chosen rs t c \<and>
       maxCount b0 < c \<and> (\<forall>(t', c') \<in> set pre. c' < c) \<and> (\<forall>(t', c') \<in> set post. c' \<le> c)"
    then obtain pre w c post where es_eq: "es = pre @ (w, c) # post"
      and pb: "pickBest rs es b0 = chosen rs w c"
      and before: "\<forall>(t', c') \<in> set pre. c' < c"
      and after: "\<forall>(t', c') \<in> set post. c' \<le> c" by blast
    have "(w, c) \<in> set es" by (simp add: es_eq)
    from es_votes [OF this] have c: "c = votes rs w" and w_in: "w \<in> set ks" by simp_all
    have ks_eq: "ks = map fst pre @ w # map fst post"
    proof -
      have "map fst es = ks" by (simp add: es_def comp_def)
      then show ?thesis by (simp add: es_eq)
    qed
    have pre_lt: "votes rs t < votes rs w" if "t \<in> set (map fst pre)" for t
    proof -
      from that obtain c' where m: "(t, c') \<in> set pre" by auto
      then have "(t, c') \<in> set es" by (simp add: es_eq)
      from es_votes [OF this] m before show ?thesis by (auto simp: c)
    qed
    have post_le: "votes rs t \<le> votes rs w" if "t \<in> set (map fst post)" for t
    proof -
      from that obtain c' where m: "(t, c') \<in> set post" by auto
      then have "(t, c') \<in> set es" by (simp add: es_eq)
      from es_votes [OF this] m after show ?thesis by (auto simp: c)
    qed
    have max: "votes rs tz \<le> votes rs w" for tz
    proof (cases "tz \<in> set ks")
      case True
      then consider "tz \<in> set (map fst pre)" | "tz = w" | "tz \<in> set (map fst post)"
        by (auto simp: ks_eq)
      then show ?thesis using pre_lt post_le by cases (auto simp: less_imp_le)
    next
      case False
      then have "votes rs tz = 0" using ks_set votes_zero_iff [of rs tz] by simp
      then show ?thesis by simp
    qed
    have tie: "w \<in> set (takeWhile (\<lambda>t. t \<noteq> tz) (map timezone rs))"
      if "tz \<noteq> w" "votes rs tz = votes rs w" for tz
    proof -
      have "0 < votes rs tz" using that pos [OF w_in] by simp
      then have "tz \<in> set ks" using ks_set votes_zero_iff [of rs tz] by auto
      then consider "tz \<in> set (map fst pre)" | "tz = w" | "tz \<in> set (map fst post)"
        by (auto simp: ks_eq)
      then have "tz \<in> set (map fst post)"
        using pre_lt [of tz] that by cases auto
      with ks_eq show ?thesis
        using firstSeen_before [of "map timezone rs" "map fst pre" w "map fst post" tz]
        by (simp add: ks_def)
    qed
    have "bestGuess n (stateOf rs) =
        Inr \<lparr>timezone = Some w, geo = map_option geo (find (\<lambda>r. timezone r = w) rs),
             confidence = of_nat (votes rs w) / of_nat n, sources = length rs\<rparr>"
      by (simp add: bg pb chosen_def c)
    moreover have "w \<in> timezone ` set rs" using w_in ks_set by simp
    ultimately show ?thesis using max tie by blast
  qed
qed

section \<open>The generator\<close>

text \<open>
  The yielded sequence follows the order of registration: the outcome of each promise in
  turn, up to the first promise that has not settled when the total timeout expires.
\<close>

lemma raceWithTimeout_Cons:
  "raceWithTimeout (p # ps) T =
     (if inTime T p then yielded p # raceWithTimeout ps T else [])"
  by (cases "settlement p") (auto simp: inTime_def yielded_def timeoutPromise_def)

lemma raceWithTimeout_takeWhile:
  "raceWithTimeout ps T = map yielded (takeWhile (inTime T) ps)"
  by (induction ps) (simp_all add: raceWithTimeout_Cons del: raceWithTimeout.simps(2))

lemma length_raceWithTimeout: "length (raceWithTimeout ps T) \<le> length ps"
  by (simp add: raceWithTimeout_takeWhile length_takeWhile_le)

lemma raceWithTimeout_late:
  "list_all2 (\<lambda>p q. if settledAt p \<le> T then q = p else T < settledAt q) ps qs \<Longrightarrow>
   raceWithTimeout ps T = raceWithTimeout qs T"
proof (induction ps qs rule: list_all2_induct)
  case Nil
  then show ?case by simp
next
  case (Cons p ps q qs)
  then show ?case
    by (cases "settledAt p \<le> T") (simp_all add: raceWithTimeout_Cons inTime_def del: raceWithTimeout.simps(2))
qed

text \<open>Nothing is yielded from the first promise on that settles after the total timeout.\<close>

lemma raceWithTimeout_cut:
  "T < settledAt p \<Longrightarrow> raceWithTimeout (pre @ p # rest) T = raceWithTimeout pre T"
  by (simp add: raceWithTimeout_takeWhile inTime_def takeWhile_tail)

lemma raceWithTimeout_all:
  "\<forall>p \<in> set ps. inTime T p \<Longrightarrow> raceWithTimeout ps T = map yielded ps"
  by (simp add: raceWithTimeout_takeWhile takeWhile_eq_all_conv [THEN iffD2])

section \<open>Consensus mode as a whole\<close>

lemma consensus_exhausted:
  "noMajority (length ps) (observed (raceWithTimeout ps T)) \<Longrightarrow>
   getTimezoneByConsensus ps T = bestGuess (length ps) (stateOf (observed (raceWithTimeout ps T)))
   \<and> tallied ps T = stateOf (observed (raceWithTimeout ps T))"
  using forAwait_exhausted [of "length ps" "[]" "raceWithTimeout ps T"]
  by (simp add: getTimezoneByConsensus_def tallied_def stateOf_Nil)

lemma consensus_majority:
  assumes "raceWithTimeout ps T = pre @ Some r # rest"
    and "noMajority (length ps) (observed pre)"
    and "majority (length ps) \<le> votes (observed pre) (timezone r) + 1"
  shows "getTimezoneByConsensus ps T =
           Inr \<lparr>timezone = Some (timezone r), geo = Some (geo r),
                confidence = of_nat (votes (observed pre) (timezone r) + 1) / of_nat (length ps),
                sources = length (observed pre) + 1\<rparr>
         \<and> tallied ps T = stateOf (observed pre @ [r])"
  using forAwait_majority [of "length ps" "[]" pre r rest] assms
  by (simp add: getTimezoneByConsensus_def tallied_def stateOf_Nil)

lemma consensus_cases:
  "(noMajority (length ps) (observed (raceWithTimeout ps T)) \<and>
    getTimezoneByConsensus ps T = bestGuess (length ps) (stateOf (observed (raceWithTimeout ps T))) \<and>
    tallied ps T = stateOf (observed (raceWithTimeout ps T)))
   \<or> (\<exists>pre r rest. raceWithTimeout ps T = pre @ Some r # rest \<and>
         noMajority (length ps) (observed pre) \<and>
         majority (length ps) \<le> votes (observed pre) (timezone r) + 1 \<and>
         getTimezoneByConsensus ps T =
           Inr \<lparr>timezone = Some (timezone r), geo = Some (geo r),
                confidence = of_nat (votes (observed pre) (timezone r) + 1) / of_nat (length ps),
                sources = length (observed pre) + 1\<rparr> \<and>
         tallied ps T = stateOf (observed pre @ [r]))"
  using majority_split [of "length ps" "raceWithTimeout ps T"]
proof
  assume "noMajority (length ps) (observed (raceWithTimeout ps T))"
  then show ?thesis using consensus_exhausted by blast
next
  assume "\<exists>pre r rest. raceWithTimeout ps T = pre @ Some r # rest \<and>
     noMajority (length ps) (observed pre) \<and>
     majority (length ps) \<le> votes (observed pre) (timezone r) + 1"
  then obtain pre r rest where h: "raceWithTimeout ps T = pre @ Some r # rest"
    "noMajority (length ps) (observed pre)"
    "majority (length ps) \<le> votes (observed pre) (timezone r) + 1" by blast
  from consensus_majority [OF h] h show ?thesis by blast
qed

text \<open>The returned object, in either path, in terms of the answers tallied when it is built.\<close>

lemma consensus_Inr:
  assumes "getTimezoneByConsensus ps T = Inr r"
  shows "\<exists>w rs. results (tallied ps T) = rs \<and> rs \<noteq> [] \<and> timezone r = Some w \<and>
           w \<in> timezone ` set rs \<and>
           confidence r = of_nat (votes rs w) / of_nat (length ps) \<and>
           sources r = length rs \<and> completedCount (tallied ps T) = length rs \<and>
           (\<exists>k. rs = observed (take k (raceWithTimeout ps T))) \<and>
           (if majority (length ps) \<le> votes rs w
            then timezone (last rs) = w \<and> geo r = Some (geo (last rs))
            else geo r = map_option geo (find (\<lambda>x. timezone x = w) rs))"
  using consensus_cases [of ps T]
proof
  let ?ys = "raceWithTimeout ps T"
  assume a: "noMajority (length ps) (observed ?ys) \<and>
    getTimezoneByConsensus ps T = bestGuess (length ps) (stateOf (observed ?ys)) \<and>
    tallied ps T = stateOf (observed ?ys)"
  have ne: "observed ?ys \<noteq> []"
  proof
    assume "observed ?ys = []"
    with a assms show False by (simp add: bestGuess_Nil)
  qed
  from bestGuess_stateOf [OF ne, of "length ps"] obtain w where
    w: "bestGuess (length ps) (stateOf (observed ?ys)) =
          Inr \<lparr>timezone = Some w, geo = map_option geo (find (\<lambda>r. timezone r = w) (observed ?ys)),
               confidence = of_nat (votes (observed ?ys) w) / of_nat (length ps),
               sources = length (observed ?ys)\<rparr>"
    and w_in: "w \<in> timezone ` set (observed ?ys)" by blast
  from a w assms have r: "r = \<lparr>timezone = Some w,
       geo = map_option geo (find (\<lambda>r. timezone r = w) (observed ?ys)),
       confidence = of_nat (votes (observed ?ys) w) / of_nat (length ps),
       sources = length (observed ?ys)\<rparr>" by simp
  from a w_in have lt: "\<not> majority (length ps) \<le> votes (observed ?ys) w"
    by (auto simp: noMajority_def)
  have "observed ?ys = observed (take (length ?ys) ?ys)" by simp
  then have k: "\<exists>k. observed ?ys = observed (take k ?ys)" ..
  show ?thesis using a ne w_in lt k by (simp add: r)
next
  assume "\<exists>pre r' rest. raceWithTimeout ps T = pre @ Some r' # rest \<and>
         noMajority (length ps) (observed pre) \<and>
         majority (length ps) \<le> votes (observed pre) (timezone r') + 1 \<and>
         getTimezoneByConsensus ps T =
           Inr \<lparr>timezone = Some (timezone r'), geo = Some (geo r'),
                confidence = of_nat (votes (observed pre) (timezone r') + 1) / of_nat (length ps),
                sources = length (observed pre) + 1\<rparr> \<and>
         tallied ps T = stateOf (observed pre @ [r'])"
  then obtain pre r' rest where ys: "raceWithTimeout ps T = pre @ Some r' # rest"
    and m: "majority (length ps) \<le> votes (observed pre) (timezone r') + 1"
    and res: "getTimezoneByConsensus ps T =
           Inr \<lparr>timezone = Some (timezone r'), geo = Some (geo r'),
                confidence = of_nat (votes (observed pre) (timezone r') + 1) / of_nat (length ps),
                sources = length (observed pre) + 1\<rparr>"
    and st: "tallied ps T = stateOf (observed pre @ [r'])" by blast
  from res assms have r: "r = \<lparr>timezone = Some (timezone r'), geo = Some (geo r'),
                confidence = of_nat (votes (observed pre) (timezone r') + 1) / of_nat (length ps),
                sources = length (observed pre) + 1\<rparr>" by simp
  have v: "votes (observed pre @ [r']) (timezone r') = votes (observed pre) (timezone r') + 1"
    by (simp add: votes_snoc)
  have "observed pre @ [r'] = observed (take (Suc (length pre)) (raceWithTimeout ps T))"
    by (simp add: ys)
  then have k: "\<exists>k. observed pre @ [r'] = observed (take k (raceWithTimeout ps T))" ..
  show ?thesis using m k by (simp add: r st v)
qed

lemma consensus_Inl:
  "getTimezoneByConsensus ps T = Inl e \<Longrightarrow>
   observed (raceWithTimeout ps T) = [] \<and> e = Error ''All GeoIP services failed or timed out''"
  using consensus_cases [of ps T] bestGuess_stateOf [of "observed (raceWithTimeout ps T)" "length ps"]
  by (cases "observed (raceWithTimeout ps T) = []") (auto simp: bestGuess_Nil)

lemma consensus_no_outcome:
  "observed (raceWithTimeout ps T) = [] \<Longrightarrow>
   getTimezoneByConsensus ps T = Inl (Error ''All GeoIP services failed or timed out'')"
  using consensus_exhausted [of ps T] by (simp add: bestGuess_Nil)

lemma tallied_length: "length (results (tallied ps T)) \<le> length ps"
proof -
  have "length (results (tallied ps T)) \<le> length (raceWithTimeout ps T)"
    using consensus_cases [of ps T]
  proof
    assume "noMajority (length ps) (observed (raceWithTimeout ps T)) \<and>
    getTimezoneByConsensus ps T = bestGuess (length ps) (stateOf (observed (raceWithTimeout ps T))) \<and>
    tallied ps T = stateOf (observed (raceWithTimeout ps T))"
    then show ?thesis using length_observed [of "raceWithTimeout ps T"] by simp
  next
    assume "\<exists>pre r rest. raceWithTimeout ps T = pre @ Some r # rest \<and>
         noMajority (length ps) (observed pre) \<and>
         majority (length ps) \<le> votes (observed pre) (timezone r) + 1 \<and>
         getTimezoneByConsensus ps T =
           Inr \<lparr>timezone = Some (timezone r), geo = Some (geo r),
                confidence = of_nat (votes (observed pre) (timezone r) + 1) / of_nat (length ps),
                sources = length (observed pre) + 1\<rparr> \<and>
         tallied ps T = stateOf (observed pre @ [r])"
    then obtain pre r rest where "raceWithTimeout ps T = pre @ Some r # rest"
      "tallied ps T = stateOf (observed pre @ [r])" by blast
    then show ?thesis using length_observed [of pre] by simp
  qed
  then show ?thesis using length_raceWithTimeout [of ps T] by simp
qed

text \<open>
  The call throws exactly when the yielded sequence holds no answer; when every promise
  settles within the total timeout, that is when every service has failed.
\<close>

lemma consensus_fails_iff:
  "(getTimezoneByConsensus ps T = Inl (Error ''All GeoIP services failed or timed out''))
      = (observed (raceWithTimeout ps T) = [])
   \<and> (\<exists>r. getTimezoneByConsensus ps T = Inr r) = (observed (raceWithTimeout ps T) \<noteq> [])"
proof (cases "observed (raceWithTimeout ps T) = []")
  case True
  then have "getTimezoneByConsensus ps T = Inl (Error ''All GeoIP services failed or timed out'')"
    by (rule consensus_no_outcome)
  with True show ?thesis by simp
next
  case False
  obtain r where "getTimezoneByConsensus ps T = Inr r"
    using False consensus_Inl [of ps T] by (cases "getTimezoneByConsensus ps T") auto
  with False show ?thesis by auto
qed

lemma consensus_fails_in_time:
  assumes "\<forall>p \<in> set ps. inTime T p"
  shows "(getTimezoneByConsensus ps T = Inl (Error ''All GeoIP services failed or timed out''))
           = (\<forall>p \<in> set ps. yielded p = None)"
  using consensus_fails_iff [of ps T] raceWithTimeout_all [OF assms]
  by (simp add: observed_Nil_iff)

section \<open>The result of getTimezone\<close>

text \<open>Every returned value is truthy: the call never returns \<open>undefined\<close> or an empty string.\<close>

lemma getTimezone_truthy: "truthy (getTimezone T g)"
  by (simp add: getTimezone_def)

section \<open>Claims\<close>

text \<open>
  C1. In consensus mode with \<open>N\<close> registered services, when the yielded sequence is
  \<open>pre @ Some r # rest\<close>, no timezone has reached \<open>majority N = ceil (N / 2)\<close> within
  \<open>pre\<close>, and the answer \<open>r\<close> brings the count of its timezone to the majority, the call
  returns the timezone of \<open>r\<close> with confidence \<open>count / N\<close>. The returned object and the
  tallied answers do not depend on \<open>rest\<close>: nothing after \<open>r\<close> is consumed.
\<close>

theorem C1_majority:
  assumes "raceWithTimeout ps T = pre @ Some r # rest"
    and "noMajority (length ps) (observed pre)"
    and "majority (length ps) \<le> votes (observed pre) (timezone r) + 1"
  shows "getTimezoneByConsensus ps T =
           Inr \<lparr>timezone = Some (timezone r), geo = Some (geo r),
                confidence = of_nat (votes (observed pre) (timezone r) + 1) / of_nat (length ps),
                sources = length (observed pre) + 1\<rparr>
         \<and> results (tallied ps T) = observed pre @ [r]"
  using consensus_majority [OF assms] by simp

theorem C1_majority_witness:
  "raceWithTimeout exMajority 8000 =
     [Some (london ''a''), Some (reply ''b'' ''Europe/London'' ''Leeds'')]
       @ Some (reply ''c'' ''Europe/London'' ''York'') # [Some (paris ''d'')]
   \<and> noMajority (length exMajority)
        (observed [Some (london ''a''), Some (reply ''b'' ''Europe/London'' ''Leeds'')])
   \<and> majority (length exMajority)
        \<le> votes (observed [Some (london ''a''), Some (reply ''b'' ''Europe/London'' ''Leeds'')])
             (timezone (reply ''c'' ''Europe/London'' ''York'')) + 1
   \<and> getTimezoneByConsensus exMajority 8000 =
        Inr \<lparr>timezone = Some ''Europe/London'', geo = Some (geo (reply ''c'' ''Europe/London'' ''York'')),
             confidence = 3 / 5, sources = 3\<rparr>
   \<and> results (tallied exMajority 8000) =
        [london ''a'', reply ''b'' ''Europe/London'' ''Leeds'', reply ''c'' ''Europe/London'' ''York'']"
proof -
  have h1: "raceWithTimeout exMajority 8000 =
     [Some (london ''a''), Some (reply ''b'' ''Europe/London'' ''Leeds'')]
       @ Some (reply ''c'' ''Europe/London'' ''York'') # [Some (paris ''d'')]"
    by code_simp
  have h2: "noMajority (length exMajority)
        (observed [Some (london ''a''), Some (reply ''b'' ''Europe/London'' ''Leeds'')])"
    by code_simp
  have h3: "majority (length exMajority)
        \<le> votes (observed [Some (london ''a''), Some (reply ''b'' ''Europe/London'' ''Leeds'')])
             (timezone (reply ''c'' ''Europe/London'' ''York'')) + 1"
    by code_simp
  note c = C1_majority [OF h1 h2 h3]
  from c have "getTimezoneByConsensus exMajority 8000 =
      Inr \<lparr>timezone = Some (timezone (reply ''c'' ''Europe/London'' ''York'')),
           geo = Some (geo (reply ''c'' ''Europe/London'' ''York'')),
           confidence = of_nat (votes (observed [Some (london ''a''),
               Some (reply ''b'' ''Europe/London'' ''Leeds'')])
               (timezone (reply ''c'' ''Europe/London'' ''York'')) + 1) / of_nat (length exMajority),
           sources = length (observed [Some (london ''a''),
               Some (reply ''b'' ''Europe/London'' ''Leeds'')]) + 1\<rparr>"
    by (rule conjunct1)
  also have "\<dots> = Inr \<lparr>timezone = Some ''Europe/London'',
        geo = Some (geo (reply ''c'' ''Europe/London'' ''York'')),
        confidence = 3 / 5, sources = 3\<rparr>"
    by code_simp
  finally have r: "getTimezoneByConsensus exMajority 8000 =
      Inr \<lparr>timezone = Some ''Europe/London'',
        geo = Some (geo (reply ''c'' ''Europe/London'' ''York'')),
        confidence = 3 / 5, sources = 3\<rparr>" .
  from c have "results (tallied exMajority 8000) =
      observed [Some (london ''a''), Some (reply ''b'' ''Europe/London'' ''Leeds'')]
        @ [reply ''c'' ''Europe/London'' ''York'']"
    by (rule conjunct2)
  then have t: "results (tallied exMajority 8000) =
      [london ''a'', reply ''b'' ''Europe/London'' ''Leeds'', reply ''c'' ''Europe/London'' ''York'']"
    by simp
  from h1 h2 h3 r t show ?thesis by (intro conjI)
qed

text \<open>
  C2, as stated, fails on the tie-break. With the answers London, Paris, Paris, London
  and one failure, both timezones end with the highest count 2; Paris is the first to
  reach that count while the answers are read in order of arrival, and the call returns
  London.
\<close>

theorem C2_counterexample:
  "getTimezoneByConsensus exTie 8000 =
     Inr \<lparr>timezone = Some ''Europe/London'', geo = Some (geo (london ''a'')),
          confidence = 2 / 5, sources = 4\<rparr>
   \<and> highestCount (observed (raceWithTimeout exTie 8000)) = 2
   \<and> firstToReach 2 [] (observed (raceWithTimeout exTie 8000)) = Some ''Europe/Paris''"
  by code_simp

text \<open>
  C2, amended. When the yielded sequence ends without any timezone reaching the
  majority and holds at least one answer, the call returns a timezone \<open>w\<close> with the
  highest count, with confidence \<open>count / N\<close>, the location of the first answer that
  named \<open>w\<close>, and the number of answers as \<open>sources\<close>. Among the timezones that tie for
  the highest count, \<open>w\<close> is the one whose first answer arrived first: its first answer
  comes before the first answer of every other timezone with that count.
\<close>

theorem C2_plurality:
  assumes "noMajority (length ps) (observed (raceWithTimeout ps T))"
    and "observed (raceWithTimeout ps T) \<noteq> []"
  shows "\<exists>w. getTimezoneByConsensus ps T =
            Inr \<lparr>timezone = Some w,
                 geo = map_option geo
                         (find (\<lambda>r. timezone r = w) (observed (raceWithTimeout ps T))),
                 confidence = of_nat (votes (observed (raceWithTimeout ps T)) w) / of_nat (length ps),
                 sources = length (observed (raceWithTimeout ps T))\<rparr>
          \<and> w \<in> timezone ` set (observed (raceWithTimeout ps T))
          \<and> (\<forall>tz. votes (observed (raceWithTimeout ps T)) tz
                      \<le> votes (observed (raceWithTimeout ps T)) w)
          \<and> (\<forall>tz. tz \<noteq> w \<and> votes (observed (raceWithTimeout ps T)) tz
                                  = votes (observed (raceWithTimeout ps T)) w \<longrightarrow>
                 w \<in> set (takeWhile (\<lambda>t. t \<noteq> tz)
                             (map timezone (observed (raceWithTimeout ps T)))))"
  using consensus_exhausted [OF assms(1)] bestGuess_stateOf [OF assms(2), of "length ps"]
  by simp

theorem C2_plurality_witness:
  "noMajority (length exTie) (observed (raceWithTimeout exTie 8000))
   \<and> observed (raceWithTimeout exTie 8000) \<noteq> []
   \<and> (\<exists>w. getTimezoneByConsensus exTie 8000 =
            Inr \<lparr>timezone = Some w,
                 geo = map_option geo
                         (find (\<lambda>r. timezone r = w) (observed (raceWithTimeout exTie 8000))),
                 confidence = of_nat (votes (observed (raceWithTimeout exTie 8000)) w)
                                / of_nat (length exTie),
                 sources = length (observed (raceWithTimeout exTie 8000))\<rparr>
          \<and> w \<in> timezone ` set (observed (raceWithTimeout exTie 8000))
          \<and> (\<forall>tz. votes (observed (raceWithTimeout exTie 8000)) tz
                      \<le> votes (observed (raceWithTimeout exTie 8000)) w)
          \<and> (\<forall>tz. tz \<noteq> w \<and> votes (observed (raceWithTimeout exTie 8000)) tz
                                  = votes (observed (raceWithTimeout exTie 8000)) w \<longrightarrow>
                 w \<in> set (takeWhile (\<lambda>t. t \<noteq> tz)
                             (map timezone (observed (raceWithTimeout exTie 8000))))))"
proof -
  have h1: "noMajority (length exTie) (observed (raceWithTimeout exTie 8000))" by code_simp
  have h2: "observed (raceWithTimeout exTie 8000) \<noteq> []" by code_simp
  from C2_plurality [OF h1 h2] h1 h2 show ?thesis by (intro conjI)
qed

text \<open>
  C3. The claim says that consensus mode returns a result whenever a service has produced
  an answer. When the first registered service settles after the total timeout, the
  generator leaves its loop there: the answer that the second service gave after 100 ms
  is never read, and the call throws \<open>All GeoIP services failed or timed out\<close>.
\<close>

theorem C3_answer_behind_late_fetch:
  "getTimezoneByConsensus
     [settles 9000 (Some (london ''a'')), settles 100 (Some (paris ''b''))] 8000
   = Inl (Error ''All GeoIP services failed or timed out'')"
  by code_simp

text \<open>
  C4. The claim says that first-success mode fails only when every service fails. The
  code settles with the first promise to settle, whichever way: when a service fails
  after 100 ms and another one answers after 200 ms, the call throws \<open>Service failed\<close>.
\<close>

theorem C4_first_absent_fails:
  "getTimezoneFirst [settles 100 None, settles 200 (Some (reply ''b'' ''Europe/London'' ''London''))]
     = Some (Inl (Error ''Service failed''))"
  by (simp add: getTimezoneFirst_def orFail_def settles_def)

text \<open>
  C5. The claim says that outcomes are yielded in the order of completion, so that a
  fast service is never held back by a slower one registered before it. The generator
  awaits the promises in the order of registration: a service registered first that
  answers after 200 ms is yielded before a service registered second that answered
  after 100 ms, where the order of completion is the other way round; and when the first
  service settles after the total timeout, the answer the second one gave after 100 ms
  is never yielded.
\<close>

theorem C5_slow_first_blocks:
  "raceWithTimeout [settles 200 (Some (reply ''a'' ''Europe/London'' ''London'')),
                    settles 100 (Some (reply ''b'' ''Europe/Paris'' ''Paris''))] 8000
     = [Some (reply ''a'' ''Europe/London'' ''London''), Some (reply ''b'' ''Europe/Paris'' ''Paris'')]
   \<and> completionOrder [settles 200 (Some (reply ''a'' ''Europe/London'' ''London'')),
                       settles 100 (Some (reply ''b'' ''Europe/Paris'' ''Paris''))] 8000
     = [Some (reply ''b'' ''Europe/Paris'' ''Paris''), Some (reply ''a'' ''Europe/London'' ''London'')]
   \<and> raceWithTimeout [settles 9000 (Some (reply ''a'' ''Europe/London'' ''London'')),
                    settles 100 (Some (reply ''b'' ''Europe/Paris'' ''Paris''))] 8000 = []"
  by (simp add: completionOrder_def settles_def inTime_def yielded_def timeoutPromise_def)

text \<open>
  C6. Whenever consensus mode returns an object, its confidence is the number of
  tallied answers that name the returned timezone, divided by the number of registered
  services, and it is greater than 0 and at most 1.
\<close>

theorem C6_confidence:
  assumes "getTimezoneByConsensus ps T = Inr r"
  shows "\<exists>w. timezone r = Some w
           \<and> confidence r = of_nat (votes (results (tallied ps T)) w) / of_nat (length ps)
           \<and> 0 < confidence r \<and> confidence r \<le> 1"
proof -
  from consensus_Inr [OF assms] obtain w where tz: "timezone r = Some w"
    and w: "w \<in> timezone ` set (results (tallied ps T))"
    and c: "confidence r = of_nat (votes (results (tallied ps T)) w) / of_nat (length ps)"
    by blast
  let ?v = "votes (results (tallied ps T)) w"
  have pos: "0 < ?v" using w votes_zero_iff [of "results (tallied ps T)" w] by auto
  have "?v \<le> length (results (tallied ps T))" by (rule votes_le_length)
  also have "\<dots> \<le> length ps" by (rule tallied_length)
  finally have le: "?v \<le> length ps" .
  with pos have n: "0 < length ps" by (cases ps) simp_all
  have "0 < (of_nat ?v :: rat) / of_nat (length ps)" using pos n by simp
  moreover have "(of_nat ?v :: rat) / of_nat (length ps) \<le> 1" using le n by simp
  ultimately show ?thesis using tz c by simp
qed

theorem C6_confidence_witness:
  "getTimezoneByConsensus exMajority 8000 =
     Inr \<lparr>timezone = Some ''Europe/London'', geo = Some (geo (reply ''c'' ''Europe/London'' ''York'')),
          confidence = 3 / 5, sources = 3\<rparr>
   \<and> (\<exists>w. Some ''Europe/London'' = Some w
           \<and> (3 / 5 :: rat) = of_nat (votes (results (tallied exMajority 8000)) w)
                                 / of_nat (length exMajority)
           \<and> (0 :: rat) < 3 / 5 \<and> (3 / 5 :: rat) \<le> 1)"
proof -
  have h: "getTimezoneByConsensus exMajority 8000 =
     Inr \<lparr>timezone = Some ''Europe/London'', geo = Some (geo (reply ''c'' ''Europe/London'' ''York'')),
          confidence = 3 / 5, sources = 3\<rparr>" by code_simp
  from C6_confidence [OF h] h show ?thesis by simp
qed

text \<open>
  C7, as stated, fails. Of five services that all settle in time, two fail; the
  returned object has \<open>sources = 3\<close>, the number of answers, where five outcomes were
  delivered.
\<close>

theorem C7_counterexample:
  "getTimezoneByConsensus exAbsent 8000 =
     Inr \<lparr>timezone = Some ''Europe/London'', geo = Some (geo (london ''b'')),
          confidence = 1 / 5, sources = 3\<rparr>
   \<and> length (raceWithTimeout exAbsent 8000) = 5
   \<and> completedCount (tallied exAbsent 8000) = 3"
  by code_simp

text \<open>
  C7, amended. A failed outcome (\<open>null\<close>) leaves the local variables as they are: it
  adds no vote and does not advance the counter. The \<open>sources\<close> of a returned object is
  the number of answers tallied when the object is built, which are the answers among a
  prefix of the yielded sequence.
\<close>

theorem C7_sources:
  "loopBody n st None = Continue st
   \<and> (getTimezoneByConsensus ps T = Inr r \<longrightarrow>
        sources r = length (results (tallied ps T))
        \<and> completedCount (tallied ps T) = length (results (tallied ps T))
        \<and> (\<exists>k. results (tallied ps T) = observed (take k (raceWithTimeout ps T))))"
  using consensus_Inr [of ps T r] by (auto simp: loopBody_None)

theorem C7_sources_witness:
  "getTimezoneByConsensus exAbsent 8000 =
     Inr \<lparr>timezone = Some ''Europe/London'', geo = Some (geo (london ''b'')),
          confidence = 1 / 5, sources = 3\<rparr>
   \<and> 3 = length (results (tallied exAbsent 8000))
   \<and> completedCount (tallied exAbsent 8000) = length (results (tallied exAbsent 8000))
   \<and> (\<exists>k. results (tallied exAbsent 8000) = observed (take k (raceWithTimeout exAbsent 8000)))"
proof -
  have h: "getTimezoneByConsensus exAbsent 8000 =
     Inr \<lparr>timezone = Some ''Europe/London'', geo = Some (geo (london ''b'')),
          confidence = 1 / 5, sources = 3\<rparr>" by code_simp
  from C7_sources [of 5 initialState exAbsent 8000
      "\<lparr>timezone = Some ''Europe/London'', geo = Some (geo (london ''b'')),
        confidence = 1 / 5, sources = 3\<rparr>"] h
  show ?thesis by simp
qed

text \<open>
  C8, as stated, fails in the early-majority path. Three services answer London with
  the cities London, Leeds and York; the call returns at the third answer with the
  location of York, where the first answer seen for the timezone is the one of London.
\<close>

theorem C8_counterexample:
  "getTimezoneByConsensus exMajority 8000 =
     Inr \<lparr>timezone = Some ''Europe/London'', geo = Some (geo (reply ''c'' ''Europe/London'' ''York'')),
          confidence = 3 / 5, sources = 3\<rparr>
   \<and> map_option geo (find (\<lambda>r. timezone r = ''Europe/London'')
                        (observed (raceWithTimeout exMajority 8000)))
       = Some (geo (london ''a''))
   \<and> geo (reply ''c'' ''Europe/London'' ''York'') \<noteq> geo (london ''a'')"
  by code_simp

text \<open>
  C8, amended. When the returned timezone has reached the majority, the returned
  location is the one of the answer that brought it there, the last answer tallied.
  Otherwise (the best-guess path) it is the location of the first answer tallied for the
  returned timezone.
\<close>

theorem C8_geo:
  assumes "getTimezoneByConsensus ps T = Inr r"
  shows "\<exists>w. timezone r = Some w \<and>
           (if majority (length ps) \<le> votes (results (tallied ps T)) w
            then timezone (last (results (tallied ps T))) = w
                 \<and> geo r = Some (geo (last (results (tallied ps T))))
            else geo r = map_option geo (find (\<lambda>x. timezone x = w) (results (tallied ps T))))"
  using consensus_Inr [OF assms] by auto

theorem C8_geo_witness:
  "getTimezoneByConsensus exTie 8000 =
     Inr \<lparr>timezone = Some ''Europe/London'', geo = Some (geo (london ''a'')),
          confidence = 2 / 5, sources = 4\<rparr>
   \<and> \<not> majority (length exTie) \<le> votes (results (tallied exTie 8000)) ''Europe/London''
   \<and> Some (geo (london ''a''))
       = map_option geo (find (\<lambda>x. timezone x = ''Europe/London'') (results (tallied exTie 8000)))"
proof -
  have h: "getTimezoneByConsensus exTie 8000 =
     Inr \<lparr>timezone = Some ''Europe/London'', geo = Some (geo (london ''a'')),
          confidence = 2 / 5, sources = 4\<rparr>" by code_simp
  have m: "\<not> majority (length exTie) \<le> votes (results (tallied exTie 8000)) ''Europe/London''"
    by code_simp
  from C8_geo [OF h] h m show ?thesis by simp
qed

text \<open>
  C9. Once the total timeout expires while a promise is awaited, nothing more is
  consumed: the yielded sequence is the one of the promises registered before that
  promise. The outcome that arrives late, and every outcome of a service registered after
  it, whether it answered early or late, therefore changes neither the returned object
  or error nor the local variables the call ends with.
\<close>

theorem C9_deadline_freezes:
  assumes "T < settledAt p" and "T < settledAt p'" and "length rest' = length rest"
  shows "raceWithTimeout (pre @ p # rest) T = raceWithTimeout pre T
         \<and> getTimezoneByConsensus (pre @ p' # rest') T = getTimezoneByConsensus (pre @ p # rest) T
         \<and> tallied (pre @ p' # rest') T = tallied (pre @ p # rest) T"
proof -
  have a: "raceWithTimeout (pre @ p # rest) T = raceWithTimeout pre T"
    using assms(1) by (rule raceWithTimeout_cut)
  have b: "raceWithTimeout (pre @ p' # rest') T = raceWithTimeout pre T"
    using assms(2) by (rule raceWithTimeout_cut)
  have n: "length (pre @ p' # rest') = length (pre @ p # rest)"
    using assms(3) by simp
  show ?thesis
    unfolding getTimezoneByConsensus_def tallied_def a b n by simp
qed

theorem C9_deadline_freezes_witness:
  "8000 < settledAt (settles 9000 (Some (reply ''c'' ''Asia/Tokyo'' ''Tokyo'')))
   \<and> 8000 < settledAt (settles 20000 (None :: outcome))
   \<and> length [settles 300 (Some (paris ''d'')), settles 50 (Some (paris ''e''))]
       = length [settles 300 (Some (reply ''d'' ''Europe/London'' ''Leeds'')),
                 settles 400 (Some (reply ''e'' ''Europe/London'' ''York''))]
   \<and> exCut = [settles 100 (Some (london ''a'')), settles 200 (Some (paris ''b''))]
               @ settles 9000 (Some (reply ''c'' ''Asia/Tokyo'' ''Tokyo''))
               # [settles 300 (Some (reply ''d'' ''Europe/London'' ''Leeds'')),
                  settles 400 (Some (reply ''e'' ''Europe/London'' ''York''))]
   \<and> raceWithTimeout exCut 8000
       = raceWithTimeout [settles 100 (Some (london ''a'')), settles 200 (Some (paris ''b''))] 8000
   \<and> raceWithTimeout exCut 8000 = [Some (london ''a''), Some (paris ''b'')]
   \<and> getTimezoneByConsensus
         ([settles 100 (Some (london ''a'')), settles 200 (Some (paris ''b''))]
            @ settles 20000 None
            # [settles 300 (Some (paris ''d'')), settles 50 (Some (paris ''e''))]) 8000
       = getTimezoneByConsensus exCut 8000
   \<and> tallied
         ([settles 100 (Some (london ''a'')), settles 200 (Some (paris ''b''))]
            @ settles 20000 None
            # [settles 300 (Some (paris ''d'')), settles 50 (Some (paris ''e''))]) 8000
       = tallied exCut 8000
   \<and> getTimezoneByConsensus exCut 8000
       = Inr \<lparr>timezone = Some ''Europe/London'', geo = Some (geo (london ''a'')),
              confidence = 1 / 5, sources = 2\<rparr>
   \<and> results (tallied exCut 8000) = [london ''a'', paris ''b'']"
proof -
  have h1: "8000 < settledAt (settles 9000 (Some (reply ''c'' ''Asia/Tokyo'' ''Tokyo'')))"
    by (simp add: settles_def)
  have h2: "8000 < settledAt (settles 20000 (None :: outcome))"
    by (simp add: settles_def)
  have h3: "length [settles 300 (Some (paris ''d'')), settles 50 (Some (paris ''e''))]
       = length [settles 300 (Some (reply ''d'' ''Europe/London'' ''Leeds'')),
                 settles 400 (Some (reply ''e'' ''Europe/London'' ''York''))]"
    by simp
  have e: "exCut = [settles 100 (Some (london ''a'')), settles 200 (Some (paris ''b''))]
               @ settles 9000 (Some (reply ''c'' ''Asia/Tokyo'' ''Tokyo''))
               # [settles 300 (Some (reply ''d'' ''Europe/London'' ''Leeds'')),
                  settles 400 (Some (reply ''e'' ''Europe/London'' ''York''))]"
    by (simp add: exCut_def)
  note c = C9_deadline_freezes [OF h1 h2 h3,
      of "[settles 100 (Some (london ''a'')), settles 200 (Some (paris ''b''))]",
      folded e]
  have y: "raceWithTimeout exCut 8000 = [Some (london ''a''), Some (paris ''b'')]"
    by code_simp
  have r: "getTimezoneByConsensus exCut 8000
       = Inr \<lparr>timezone = Some ''Europe/London'', geo = Some (geo (london ''a'')),
              confidence = 1 / 5, sources = 2\<rparr>"
    by code_simp
  have t: "results (tallied exCut 8000) = [london ''a'', paris ''b'']"
    by code_simp
  from c have c1: "raceWithTimeout exCut 8000
       = raceWithTimeout [settles 100 (Some (london ''a'')), settles 200 (Some (paris ''b''))] 8000"
    by (rule conjunct1)
  from c have c2: "getTimezoneByConsensus
         ([settles 100 (Some (london ''a'')), settles 200 (Some (paris ''b''))]
            @ settles 20000 None
            # [settles 300 (Some (paris ''d'')), settles 50 (Some (paris ''e''))]) 8000
       = getTimezoneByConsensus exCut 8000"
    by (rule conjunct1 [OF conjunct2])
  from c have c3: "tallied
         ([settles 100 (Some (london ''a'')), settles 200 (Some (paris ''b''))]
            @ settles 20000 None
            # [settles 300 (Some (paris ''d'')), settles 50 (Some (paris ''e''))]) 8000
       = tallied exCut 8000"
    by (rule conjunct2 [OF conjunct2])
  from h1 h2 h3 e c1 y c2 c3 r t show ?thesis by (intro conjI)
qed

text \<open>
  C10. The claim says that \<open>getTimezone\<close> always returns a non-empty string, \<open>'UTC'\<close>
  when no table has an entry. The tables are read with \<open>TABLE[key]\<close>, which also finds
  what the table object inherits: whenever the country table gives an object under
  \<open>constructor\<close>, as every object literal does, the call with the country \<open>constructor\<close>
  returns that object, which is neither a string nor \<open>'UTC'\<close>.
\<close>

theorem C10_inherited_member:
  assumes "COUNTRY_TIMEZONE T ''constructor'' = Obj members"
  shows "getTimezone T \<lparr>country = Some ''constructor'', countryRegion = None, city = None,
                         cfTimezone = None\<rparr> = Obj members
         \<and> getTimezone T \<lparr>country = Some ''constructor'', countryRegion = None, city = None,
                           cfTimezone = None\<rparr> \<noteq> Str ''UTC''"
  using assms by (simp add: getTimezone_def)

theorem C10_inherited_member_witness:
  "COUNTRY_TIMEZONE exTables ''constructor'' = Obj exFunction
   \<and> getTimezone exTables \<lparr>country = Some ''constructor'', countryRegion = None, city = None,
                         cfTimezone = None\<rparr> = Obj exFunction
   \<and> getTimezone exTables \<lparr>country = Some ''constructor'', countryRegion = None, city = None,
                           cfTimezone = None\<rparr> \<noteq> Str ''UTC''"
proof -
  have h: "COUNTRY_TIMEZONE exTables ''constructor'' = Obj exFunction"
    by (simp add: exTables_def exTable_def)
  from C10_inherited_member [OF h] h show ?thesis by (intro conjI) simp_all
qed

end
